theory Spec2Isabelle
  imports Main
begin

section \<open>Data model of pkg/cmd/taskrun/log\_reader.go\<close>

text \<open>
  Embedded are \<open>hasStarted\<close>, \<open>filterSteps\<close>, \<open>getInitSteps\<close>, \<open>getSteps\<close>,
  \<open>readStepsLogs\<close>, \<open>readAvailableLogs\<close>, \<open>waitUntilPodNameAvailable\<close> and
  \<open>hasTaskRunFailed\<close>. The remaining functions of the file (\<open>Read\<close>, \<open>readLogs\<close>,
  \<open>formTaskName\<close>, \<open>readLiveLogs\<close>) fetch the run, choose the task name and call these;
  \<open>readLiveLogs\<close> waits with the timeout 10. The slices of step pointers are lists of
  steps: no step is written to after it is built.

  Go strings are byte sequences and are modelled as \<open>string\<close>. A Go \<open>error\<close> is an
  interface value. Two kinds occur in this file: errors built here with \<open>fmt.Errorf\<close> or
  \<open>errors.New\<close> (a fresh value holding the formatted message) and errors handed over by a
  collaborator (the cluster client, the pod helper) that are passed on unchanged. The two
  are never the same value, which the two constructors keep apart.
\<close>

datatype error = Errorf string | External string

fun Error :: "error \<Rightarrow> string" where
  "Error (Errorf m) = m"
| "Error (External m) = m"

text \<open>
  \<open>corev1.ContainerState\<close> holds three pointers of which at most one is set. Only their
  being nil is inspected here, so the structs they point to are kept as their main field.
\<close>

record ContainerState =
  Waiting :: "string option"
  Running :: "nat option"
  Terminated :: "int option"

definition zero_ContainerState :: ContainerState where
  "zero_ContainerState = \<lparr>Waiting = None, Running = None, Terminated = None\<rparr>"

record Container =
  Container_Name :: string

record ContainerStatus =
  ContainerStatus_Name :: string
  ContainerStatus_State :: ContainerState

record PodSpec =
  InitContainers :: "Container list"
  Containers :: "Container list"

record PodStatus =
  InitContainerStatuses :: "ContainerStatus list"
  ContainerStatuses :: "ContainerStatus list"

record Pod =
  Pod_Spec :: PodSpec
  Pod_Status :: PodStatus

record step =
  name :: string
  container :: string
  state :: ContainerState

definition hasStarted :: "step \<Rightarrow> bool" where
  "hasStarted s = (Waiting (state s) = None)"

section \<open>Step resolver\<close>

text \<open>\<open>strings.HasPrefix\<close> and \<open>strings.TrimPrefix\<close> of the Go standard library.\<close>

definition strings_HasPrefix :: "string \<Rightarrow> string \<Rightarrow> bool" where
  "strings_HasPrefix s p = (length s \<ge> length p \<and> take (length p) s = p)"

definition strings_TrimPrefix :: "string \<Rightarrow> string \<Rightarrow> string" where
  "strings_TrimPrefix s p = (if strings_HasPrefix s p then drop (length p) s else s)"

text \<open>
  A Go map read at a missing key gives the zero value of the value type. The map
  \<open>status\<close> is filled by a loop over the status list, a later entry replacing an earlier
  one of the same name.
\<close>

definition statusMap :: "ContainerStatus list \<Rightarrow> (string \<rightharpoonup> ContainerState)" where
  "statusMap css =
     foldl (\<lambda>status cs. status(ContainerStatus_Name cs \<mapsto> ContainerStatus_State cs)) Map.empty css"

definition statusAt :: "(string \<rightharpoonup> ContainerState) \<Rightarrow> string \<Rightarrow> ContainerState" where
  "statusAt status k = (case status k of None \<Rightarrow> zero_ContainerState | Some st \<Rightarrow> st)"

definition mkStep :: "(string \<rightharpoonup> ContainerState) \<Rightarrow> Container \<Rightarrow> step" where
  "mkStep status c =
     \<lparr>name = strings_TrimPrefix (Container_Name c) ''step-'',
      container = Container_Name c,
      state = statusAt status (Container_Name c)\<rparr>"

definition getInitSteps :: "Pod \<Rightarrow> step list" where
  "getInitSteps pod =
     (let status = statusMap (InitContainerStatuses (Pod_Status pod))
      in foldl (\<lambda>steps ic. steps @ [mkStep status ic]) [] (InitContainers (Pod_Spec pod)))"

definition getSteps :: "Pod \<Rightarrow> step list" where
  "getSteps pod =
     (let status = statusMap (ContainerStatuses (Pod_Status pod))
      in foldl (\<lambda>steps c. steps @ [mkStep status c]) [] (Containers (Pod_Spec pod)))"

definition boolAt :: "(string \<rightharpoonup> bool) \<Rightarrow> string \<Rightarrow> bool" where
  "boolAt m k = (case m k of None \<Rightarrow> False | Some b \<Rightarrow> b)"

definition filterSteps :: "Pod \<Rightarrow> bool \<Rightarrow> string list \<Rightarrow> step list" where
  "filterSteps pod allSteps stepsGiven =
     (let steps0 = [];
          stepsInPod = getSteps pod;
          steps1 = (if allSteps then steps0 @ getInitSteps pod else steps0)
      in if length stepsGiven = 0 then steps1 @ stepsInPod
         else
           let stepsToAdd = foldl (\<lambda>m s. m(s \<mapsto> True)) Map.empty stepsGiven
           in foldl (\<lambda>steps sp. if boolAt stepsToAdd (name sp) then steps @ [sp] else steps)
                steps1 stepsInPod)"

section \<open>Log multiplexer\<close>

text \<open>
  A record of \<open>log.Log\<close> as it is built in \<open>readStepsLogs\<close>.
\<close>

record Log =
  Log_Task :: string
  Log_Step :: string
  Log_Log :: string

text \<open>
  A receive-only channel handed over by the per-container log reader: \<open>NilChan\<close> is the
  nil channel; \<open>Chan xs closes\<close> will still deliver the values \<open>xs\<close> in this order and
  is closed by its sender after them iff \<open>closes\<close>. A receive is possible when a value
  or the close is still to come; on a nil channel, and on one that stays open with nothing
  more to deliver, a receive blocks for ever. Of a value of the log channel only its
  field \<open>Log\<close> is read, of a value of the error channel only its message.
\<close>

datatype 'a chan = NilChan | Chan "'a list" bool

fun ready :: "'a chan \<Rightarrow> bool" where
  "ready NilChan = False"
| "ready (Chan [] closes) = closes"
| "ready (Chan (x # xs) closes) = True"

fun pending :: "'a chan \<Rightarrow> nat" where
  "pending NilChan = 0"
| "pending (Chan xs closes) = Suc (length xs)"

text \<open>
  What the background goroutine does to its two output channels, in the order in which it
  does it. The consumer is taken to drain both channels, so that no send blocks.
\<close>

datatype event = SendLog Log | SendErr error | CloseErrC | CloseLogC

definition emit :: "event \<Rightarrow> event list \<times> 'a \<Rightarrow> event list \<times> 'a" where
  "emit ev r = (ev # fst r, snd r)"

text \<open>
  The handle \<open>*pods.Pod\<close> with the calls made on it: \<open>Get\<close> is \<open>p.Get()\<close>;
  \<open>Read c follow\<close> is \<open>p.Container(c).LogReader(follow).Read()\<close>, an error or the two
  channels; \<open>Status c\<close> is \<open>p.Container(c).Status()\<close>, the message of the error or
  \<open>None\<close> for nil. When a \<open>select\<close> finds both channels of container \<open>c\<close> able to
  deliver, Go picks one at random: \<open>order c\<close> lists these picks, one per \<open>select\<close>
  executed, \<open>True\<close> for the log channel (also taken when the list has run out).
\<close>

record pods_Pod =
  Get :: "string + Pod"
  Read :: "string \<Rightarrow> bool \<Rightarrow> string + (string chan \<times> string chan)"
  Status :: "string \<Rightarrow> string option"
  order :: "string \<Rightarrow> bool list"

definition pick :: "bool list \<Rightarrow> bool" where
  "pick sched = (case sched of [] \<Rightarrow> True | b # _ \<Rightarrow> b)"

text \<open>
  The loop \<open>for podC != nil || perrC != nil { select ... }\<close>. The result holds the sends
  made and whether the loop was left (\<open>True\<close>) or blocks for ever in its \<open>select\<close>.
\<close>

function selectLoop ::
  "string \<Rightarrow> string \<Rightarrow> bool list \<Rightarrow> string chan \<Rightarrow> string chan \<Rightarrow> event list \<times> bool" where
  "selectLoop task stepName sched podC perrC =
     (if podC = NilChan \<and> perrC = NilChan then ([], True)
      else if \<not> ready podC \<and> \<not> ready perrC then ([], False)
      else if ready podC \<and> (\<not> ready perrC \<or> pick sched) then
        (case podC of
           Chan (l # ls) closes \<Rightarrow>
             emit (SendLog \<lparr>Log_Task = task, Log_Step = stepName, Log_Log = l\<rparr>)
               (selectLoop task stepName (tl sched) (Chan ls closes) perrC)
         | _ \<Rightarrow>
             emit (SendLog \<lparr>Log_Task = task, Log_Step = stepName, Log_Log = ''EOFLOG''\<rparr>)
               (selectLoop task stepName (tl sched) NilChan perrC))
      else
        (case perrC of
           Chan (e # es) closes \<Rightarrow>
             emit (SendErr (Errorf (''failed to get logs for '' @ stepName @ '': '' @ e)))
               (selectLoop task stepName (tl sched) podC (Chan es closes))
         | _ \<Rightarrow> selectLoop task stepName (tl sched) podC NilChan))"
  by pat_completeness auto
termination
  by (relation "measure (\<lambda>(task, stepName, sched, podC, perrC). pending podC + pending perrC)")
     (auto split: chan.splits list.splits)

declare selectLoop.simps [simp del]

text \<open>
  One pass through the body of \<open>for _, step := range steps\<close> for a step that is not
  skipped: opening the log reader, the \<open>select\<close> loop and the status query. The pass ends
  in \<open>continue\<close> or at the end of the body (\<open>Continue\<close>), in \<open>return\<close> (\<open>Return\<close>), or
  never (\<open>Block\<close>).
\<close>

datatype flow = Continue | Return | Block

definition readStep :: "pods_Pod \<Rightarrow> string \<Rightarrow> bool \<Rightarrow> step \<Rightarrow> event list \<times> flow" where
  "readStep pod task follow s =
     (case Read pod (container s) follow of
        Inl err \<Rightarrow>
          ([SendErr (Errorf (''error in getting logs for step '' @ name s @ '': '' @ err))],
           Continue)
      | Inr (podC, perrC) \<Rightarrow>
          (case selectLoop task (name s) (order pod (container s)) podC perrC of
             (tr, False) \<Rightarrow> (tr, Block)
           | (tr, True) \<Rightarrow>
               (case Status pod (container s) of
                  Some err \<Rightarrow> (tr @ [SendErr (External err)], Return)
                | None \<Rightarrow> (tr, Continue))))"

text \<open>The body of the goroutine, up to its deferred calls.\<close>

datatype exit = LoopEnded | Returned | Blocked

fun stepsLoop :: "pods_Pod \<Rightarrow> string \<Rightarrow> bool \<Rightarrow> step list \<Rightarrow> event list \<times> exit" where
  "stepsLoop pod task follow [] = ([], LoopEnded)"
| "stepsLoop pod task follow (s # steps) =
     (if \<not> follow \<and> \<not> hasStarted s then stepsLoop pod task follow steps
      else
        case readStep pod task follow s of
          (tr, Continue) \<Rightarrow>
            (tr @ fst (stepsLoop pod task follow steps), snd (stepsLoop pod task follow steps))
        | (tr, Return) \<Rightarrow> (tr, Returned)
        | (tr, Block) \<Rightarrow> (tr, Blocked))"

record cli_Stream =
  Stream_Out :: string
  Stream_Err :: string

record LogReader =
  Task :: string
  Run :: string
  Number :: int
  Ns :: string
  Follow :: bool
  AllSteps :: bool
  Stream :: "cli_Stream option"
  Steps :: "string list"

text \<open>
  \<open>readStepsLogs\<close> starts the goroutine and returns the two channels at once; the model
  gives what the goroutine does to them. The deferred calls run in reverse order when the
  function literal returns, and never when it blocks.
\<close>

definition readStepsLogs :: "LogReader \<Rightarrow> step list \<Rightarrow> pods_Pod \<Rightarrow> bool \<Rightarrow> event list" where
  "readStepsLogs lr steps pod follow =
     (case stepsLoop pod (Task lr) follow steps of
        (tr, Blocked) \<Rightarrow> tr
      | (tr, _) \<Rightarrow> tr @ [CloseErrC, CloseLogC])"

text \<open>
  The same goroutine with its calls on the pod handle recorded among what it does:
  \<open>CallRead c follow\<close> is the call \<open>pod.Container(c).LogReader(follow).Read()\<close>,
  \<open>CallStatus c\<close> the call \<open>pod.Container(c).Status()\<close>, and \<open>Does e\<close> a send or close
  as before. The \<open>select\<close> loop makes no call. \<open>sends\<close> drops the calls again.
\<close>

datatype act = CallRead string bool | CallStatus string | Does event

definition readStep_acts :: "pods_Pod \<Rightarrow> string \<Rightarrow> bool \<Rightarrow> step \<Rightarrow> act list \<times> flow" where
  "readStep_acts pod task follow s =
     (case Read pod (container s) follow of
        Inl err \<Rightarrow>
          ([CallRead (container s) follow,
            Does (SendErr (Errorf (''error in getting logs for step '' @ name s @ '': '' @ err)))],
           Continue)
      | Inr (podC, perrC) \<Rightarrow>
          (case selectLoop task (name s) (order pod (container s)) podC perrC of
             (tr, False) \<Rightarrow> (CallRead (container s) follow # map Does tr, Block)
           | (tr, True) \<Rightarrow>
               (case Status pod (container s) of
                  Some err \<Rightarrow>
                    (CallRead (container s) follow # map Does tr @
                       [CallStatus (container s), Does (SendErr (External err))],
                     Return)
                | None \<Rightarrow>
                    (CallRead (container s) follow # map Does tr @ [CallStatus (container s)],
                     Continue))))"

fun stepsLoop_acts :: "pods_Pod \<Rightarrow> string \<Rightarrow> bool \<Rightarrow> step list \<Rightarrow> act list \<times> exit" where
  "stepsLoop_acts pod task follow [] = ([], LoopEnded)"
| "stepsLoop_acts pod task follow (s # steps) =
     (if \<not> follow \<and> \<not> hasStarted s then stepsLoop_acts pod task follow steps
      else
        case readStep_acts pod task follow s of
          (tr, Continue) \<Rightarrow>
            (tr @ fst (stepsLoop_acts pod task follow steps),
             snd (stepsLoop_acts pod task follow steps))
        | (tr, Return) \<Rightarrow> (tr, Returned)
        | (tr, Block) \<Rightarrow> (tr, Blocked))"

definition readStepsLogs_acts :: "LogReader \<Rightarrow> step list \<Rightarrow> pods_Pod \<Rightarrow> bool \<Rightarrow> act list" where
  "readStepsLogs_acts lr steps pod follow =
     (case stepsLoop_acts pod (Task lr) follow steps of
        (tr, Blocked) \<Rightarrow> tr
      | (tr, _) \<Rightarrow> tr @ [Does CloseErrC, Does CloseLogC])"

fun sends :: "act list \<Rightarrow> event list" where
  "sends [] = []"
| "sends (Does e # as) = e # sends as"
| "sends (a # as) = sends as"

fun isCallOn :: "string \<Rightarrow> act \<Rightarrow> bool" where
  "isCallOn c (CallRead c' follow) = (c' = c)"
| "isCallOn c (CallStatus c') = (c' = c)"
| "isCallOn c (Does e) = False"

section \<open>Task runs\<close>

text \<open>
  Of \<open>v1alpha1.TaskRun\<close> the fields read here. \<open>HasStarted\<close> stands for the result of the
  method \<open>tr.HasStarted()\<close> of the pipeline library. A condition status is a Go string.
\<close>

record Condition =
  Condition_Status :: string
  Condition_Message :: string

record TaskRunStatus =
  PodName :: string
  Conditions :: "Condition list"

record TaskRun =
  TaskRun_Name :: string
  HasStarted :: bool
  TaskRun_Status :: TaskRunStatus

definition corev1_ConditionFalse :: string where
  "corev1_ConditionFalse = ''False''"

definition hasTaskRunFailed :: "Condition list \<Rightarrow> string \<Rightarrow> error option" where
  "hasTaskRunFailed trConditions taskName =
     (if length trConditions \<noteq> 0 \<and> Condition_Status (hd trConditions) = corev1_ConditionFalse
      then Some (Errorf (''task '' @ taskName @ '' has failed: '' @ Condition_Message (hd trConditions)))
      else None)"

section \<open>Reading the logs available now\<close>

text \<open>
  \<open>pods.New(podName, lr.Ns, kube, lr.Streamer)\<close> is the argument \<open>pods_New\<close>, and
  \<open>strings.TrimSpace\<close> the argument \<open>trimSpace\<close>. The result is the side-channel writer
  \<open>lr.Stream\<close> afterwards (its \<open>Err\<close> holding what was written to it) and either the error
  returned at once, with two nil channels, or what the goroutine does to the two channels
  returned. A stream that is set is taken to have its writers set.
\<close>

definition readAvailableLogs ::
  "LogReader \<Rightarrow> (string \<Rightarrow> string \<Rightarrow> pods_Pod) \<Rightarrow> (string \<Rightarrow> string) \<Rightarrow> TaskRun \<Rightarrow>
     cli_Stream option \<times> (error + event list)" where
  "readAvailableLogs lr pods_New trimSpace tr =
     (if \<not> HasStarted tr
      then (Stream lr, Inl (Errorf (''task '' @ Task lr @ '' has not started yet'')))
      else
        case hasTaskRunFailed (Conditions (TaskRun_Status tr)) (Task lr) of
          Some err \<Rightarrow>
            (case Stream lr of
               None \<Rightarrow> (None, Inl err)
             | Some st \<Rightarrow>
                 (Some (st\<lparr>Stream_Err := Stream_Err st @ Error err @ [CHR 0x0A]\<rparr>), Inl err))
        | None \<Rightarrow>
            (if PodName (TaskRun_Status tr) = ''''
            then (Stream lr,
                  Inl (Errorf (''pod for taskrun '' @ TaskRun_Name tr @ '' not available yet'')))
            else
              let podName = PodName (TaskRun_Status tr);
                  p = pods_New podName (Ns lr)
              in (case Get p of
                    Inl err \<Rightarrow>
                      (Stream lr,
                       Inl (Errorf (''task '' @ Task lr @ '' failed: '' @ trimSpace err @
                                    ''. Run tkn tr desc '' @ TaskRun_Name tr @ '' for more details.'')))
                  | Inr pod \<Rightarrow>
                      (Stream lr,
                       Inr (readStepsLogs lr (filterSteps pod (AllSteps lr) (Steps lr)) p (Follow lr))))))"

section \<open>Waiting for the pod name\<close>

text \<open>
  Time is counted in nanoseconds from the moment the loop is entered. A value on the
  watch's result channel arrives at \<open>arrival\<close>; its \<open>Object\<close> is \<open>None\<close> when it is not a
  task run (also the zero event of a closed channel), on which the type assertion panics.
  The channel is a sequence indexed from 0, \<open>None\<close> from the first index at which nothing
  is delivered any more.
\<close>

record watch_Event =
  arrival :: nat
  Object :: "TaskRun option"

datatype wait_result = Got TaskRun | Failed error | Panic

definition time_Second :: nat where
  "time_Second = 1000000000"

text \<open>
  The timeout case of the \<open>select\<close>. Its \<open>run\<close> is the variable of the enclosing
  function, assigned once from the first \<open>Get\<close>: the \<open>run\<close> of the event case is declared
  with \<open>:=\<close> inside that case and is out of scope here.
\<close>

definition onTimeout :: "TaskRun \<Rightarrow> string \<Rightarrow> wait_result" where
  "onTimeout run task =
     (case hasTaskRunFailed (Conditions (TaskRun_Status run)) task of
        Some err \<Rightarrow> Failed err
      | None \<Rightarrow>
          Failed (Errorf (''task '' @ task @
                          '' create has not started yet or pod for task not yet available'')))"

text \<open>
  The loop \<open>for { select { ... } }\<close>, at time \<open>now\<close> with \<open>i\<close> events received so far.
  \<open>time.After(d)\<close> is evaluated anew by each \<open>select\<close>, so its timer fires at
  \<open>now + d\<close>; an event that arrives earlier is received first (at once when it was already
  waiting), otherwise the timer case runs; an event that arrives at the very moment the
  timer fires is left to the timer. \<open>first\<close> is the flag of that name, cleared by the
  first event and read nowhere else. The result is paired with the time of the return;
  \<open>None\<close> is a loop that never returns.
\<close>

partial_function (option) watchLoop ::
  "nat \<Rightarrow> string \<Rightarrow> TaskRun \<Rightarrow> (nat \<Rightarrow> watch_Event option) \<Rightarrow> bool \<Rightarrow> nat \<Rightarrow> nat \<Rightarrow>
     (wait_result \<times> nat) option" where
  "watchLoop d task run evs first i now =
     (case evs i of
        None \<Rightarrow> Some (onTimeout run task, now + d)
      | Some event \<Rightarrow>
          if arrival event < now + d then
            (case Object event of
               None \<Rightarrow> Some (Panic, max now (arrival event))
             | Some run' \<Rightarrow>
                 if PodName (TaskRun_Status run') \<noteq> ''''
                 then Some (Got run', max now (arrival event))
                 else watchLoop d task run evs (if first then False else first) (Suc i)
                        (max now (arrival event)))
          else Some (onTimeout run task, now + d))"

declare watchLoop.simps [code]

text \<open>
  The client \<open>tkn.TektonV1alpha1().TaskRuns(lr.Ns)\<close>: the result of \<open>Get\<close> and of
  \<open>Watch\<close>. The duration \<open>timeout * time.Second\<close> is a natural number of nanoseconds;
  the only call passes 10, far from the range of \<open>int64\<close>.
\<close>

record TaskRuns =
  TaskRuns_Get :: "string + TaskRun"
  TaskRuns_Watch :: "string + (nat \<Rightarrow> watch_Event option)"

definition waitUntilPodNameAvailable ::
  "LogReader \<Rightarrow> TaskRuns \<Rightarrow> nat \<Rightarrow> (wait_result \<times> nat) option" where
  "waitUntilPodNameAvailable lr tkn timeout =
     (case TaskRuns_Get tkn of
        Inl err \<Rightarrow> Some (Failed (External err), 0)
      | Inr run \<Rightarrow>
          if PodName (TaskRun_Status run) \<noteq> '''' then Some (Got run, 0)
          else
            (case TaskRuns_Watch tkn of
               Inl err \<Rightarrow> Some (Failed (External err), 0)
             | Inr evs \<Rightarrow> watchLoop (timeout * time_Second) (Task lr) run evs True 0 0))"

text \<open>A watch channel that delivers the events of a list and then nothing more.\<close>

definition events :: "watch_Event list \<Rightarrow> nat \<Rightarrow> watch_Event option" where
  "events es i = (if i < length es then Some (es ! i) else None)"

section \<open>Reading what was sent\<close>

text \<open>
  Predicates on the sends of the goroutine, and the log records that the \<open>select\<close> loop
  owes to a log channel: one per value, and the end-of-log record when the channel is
  closed.
\<close>

fun isSendLog :: "event \<Rightarrow> bool" where
  "isSendLog (SendLog l) = True"
| "isSendLog _ = False"

fun isExternal :: "event \<Rightarrow> bool" where
  "isExternal (SendErr (External m)) = True"
| "isExternal _ = False"

definition logsOf :: "string \<Rightarrow> string \<Rightarrow> string chan \<Rightarrow> event list" where
  "logsOf task stepName c =
     (case c of
        NilChan \<Rightarrow> []
      | Chan ls closes \<Rightarrow>
          map (\<lambda>l. SendLog \<lparr>Log_Task = task, Log_Step = stepName, Log_Log = l\<rparr>) ls @
          (if closes then [SendLog \<lparr>Log_Task = task, Log_Step = stepName, Log_Log = ''EOFLOG''\<rparr>] else []))"

section \<open>Example inputs\<close>

definition ex_waiting :: ContainerState where
  "ex_waiting = \<lparr>Waiting = Some ''PodInitializing'', Running = None, Terminated = None\<rparr>"

definition ex_terminated :: ContainerState where
  "ex_terminated = \<lparr>Waiting = None, Running = None, Terminated = Some 0\<rparr>"

definition ex_pod :: Pod where
  "ex_pod =
     \<lparr>Pod_Spec =
        \<lparr>InitContainers = [\<lparr>Container_Name = ''init-git''\<rparr>],
         Containers = [\<lparr>Container_Name = ''step-build''\<rparr>, \<lparr>Container_Name = ''step-test''\<rparr>]\<rparr>,
      Pod_Status =
        \<lparr>InitContainerStatuses = [],
         ContainerStatuses =
           [\<lparr>ContainerStatus_Name = ''step-build'', ContainerStatus_State = ex_terminated\<rparr>,
            \<lparr>ContainerStatus_Name = ''step-test'', ContainerStatus_State = ex_waiting\<rparr>]\<rparr>\<rparr>"

definition ex_init :: step where
  "ex_init = \<lparr>name = ''init-git'', container = ''init-git'', state = zero_ContainerState\<rparr>"

definition ex_build :: step where
  "ex_build = \<lparr>name = ''build'', container = ''step-build'', state = ex_terminated\<rparr>"

definition ex_test :: step where
  "ex_test = \<lparr>name = ''test'', container = ''step-test'', state = ex_waiting\<rparr>"

definition ex_lr :: LogReader where
  "ex_lr = \<lparr>Task = ''ci'', Run = ''ci-run-1'', Number = 1, Ns = ''default'', Follow = False,
            AllSteps = False, Stream = Some \<lparr>Stream_Out = '''', Stream_Err = ''''\<rparr>, Steps = []\<rparr>"

definition ex_handle :: "string option \<Rightarrow> pods_Pod" where
  "ex_handle buildStatus =
     \<lparr>Get = Inr ex_pod,
      Read = (\<lambda>c follow.
        if c = ''step-build'' then Inr (Chan [''ok''] True, Chan [''lost''] True)
        else if c = ''step-test'' then Inr (Chan [''tested''] True, Chan [] True)
        else Inl ''not found''),
      Status = (\<lambda>c. if c = ''step-build'' then buildStatus else None),
      order = (\<lambda>c. [True, False])\<rparr>"

definition ex_reader :: "string chan \<Rightarrow> pods_Pod" where
  "ex_reader podC =
     \<lparr>Get = Inr ex_pod,
      Read = (\<lambda>c follow. Inr (podC, Chan [] True)),
      Status = (\<lambda>c. None),
      order = (\<lambda>c. [])\<rparr>"

definition ex_run_failed :: TaskRun where
  "ex_run_failed =
     \<lparr>TaskRun_Name = ''ci-run-1'', HasStarted = True,
      TaskRun_Status =
        \<lparr>PodName = '''',
         Conditions = [\<lparr>Condition_Status = ''False'', Condition_Message = ''invalid input''\<rparr>]\<rparr>\<rparr>"

definition ex_run_pending :: TaskRun where
  "ex_run_pending =
     \<lparr>TaskRun_Name = ''ci-run-1'', HasStarted = True,
      TaskRun_Status = \<lparr>PodName = '''', Conditions = []\<rparr>\<rparr>"

definition ex_tkn :: "TaskRun \<Rightarrow> (nat \<Rightarrow> watch_Event option) \<Rightarrow> TaskRuns" where
  "ex_tkn run evs = \<lparr>TaskRuns_Get = Inr run, TaskRuns_Watch = Inr evs\<rparr>"

definition ex_busy :: "nat \<Rightarrow> watch_Event" where
  "ex_busy i = \<lparr>arrival = 9000000000 * i, Object = Some ex_run_pending\<rparr>"

section \<open>Properties of the step resolver\<close>

lemma foldl_snoc_map: "foldl (\<lambda>acc x. acc @ [f x]) acc0 xs = acc0 @ map f xs"
  by (induction xs arbitrary: acc0) simp_all

lemma foldl_snoc_filter:
  "foldl (\<lambda>acc x. if P x then acc @ [x] else acc) acc0 xs = acc0 @ filter P xs"
  by (induction xs arbitrary: acc0) simp_all

lemma getSteps_map:
  "getSteps pod =
     map (mkStep (statusMap (ContainerStatuses (Pod_Status pod)))) (Containers (Pod_Spec pod))"
  by (simp add: getSteps_def foldl_snoc_map)

lemma getInitSteps_map:
  "getInitSteps pod =
     map (mkStep (statusMap (InitContainerStatuses (Pod_Status pod)))) (InitContainers (Pod_Spec pod))"
  by (simp add: getInitSteps_def foldl_snoc_map)

lemma stepsToAdd_dom: "foldl (\<lambda>m s. m(s \<mapsto> True)) m0 xs k =
    (if k \<in> set xs then Some True else m0 k)"
  by (induction xs arbitrary: m0) auto

lemma boolAt_stepsToAdd:
  "boolAt (foldl (\<lambda>m s. m(s \<mapsto> True)) Map.empty xs) k = (k \<in> set xs)"
  by (simp add: boolAt_def stepsToAdd_dom)

lemma filterSteps_nonempty:
  "stepsGiven \<noteq> [] \<Longrightarrow>
   filterSteps pod allSteps stepsGiven =
     (if allSteps then getInitSteps pod else []) @
     filter (\<lambda>sp. name sp \<in> set stepsGiven) (getSteps pod)"
  by (simp add: filterSteps_def Let_def foldl_snoc_filter boolAt_stepsToAdd)

lemma filterSteps_empty:
  "filterSteps pod allSteps [] = (if allSteps then getInitSteps pod else []) @ getSteps pod"
  by (simp add: filterSteps_def)

lemma map_name_mkStep:
  "map name (map (mkStep st) cs) = map (\<lambda>c. strings_TrimPrefix (Container_Name c) ''step-'') cs"
  by (simp add: mkStep_def)

lemma map_container_mkStep: "map container (map (mkStep st) cs) = map Container_Name cs"
  by (simp add: mkStep_def)

text \<open>
  Claim C3. With an empty list of wanted names, \<open>filterSteps\<close> returns one step per
  declared container of the pod, in the order of declaration, after one step per init
  container when \<open>allSteps\<close> is set and none otherwise; every step carries the name of its
  container and, as its own name, that name with the prefix \<open>step-\<close> removed.
\<close>

theorem filterSteps_no_selection:
  "filterSteps pod allSteps [] =
     (if allSteps
      then map (mkStep (statusMap (InitContainerStatuses (Pod_Status pod))))
             (InitContainers (Pod_Spec pod))
      else []) @
     map (mkStep (statusMap (ContainerStatuses (Pod_Status pod)))) (Containers (Pod_Spec pod))
   \<and> map container (filterSteps pod allSteps []) =
       map Container_Name
         ((if allSteps then InitContainers (Pod_Spec pod) else []) @ Containers (Pod_Spec pod))
   \<and> map name (filterSteps pod allSteps []) =
       map (\<lambda>c. strings_TrimPrefix (Container_Name c) ''step-'')
         ((if allSteps then InitContainers (Pod_Spec pod) else []) @ Containers (Pod_Spec pod))"
  by (simp add: filterSteps_empty getSteps_map getInitSteps_map mkStep_def)

theorem filterSteps_no_selection_witness:
  "map name (filterSteps ex_pod True []) = [''init-git'', ''build'', ''test'']
   \<and> map container (filterSteps ex_pod False []) = [''step-build'', ''step-test'']"
proof -
  have a: "map name (filterSteps ex_pod True []) =
      map (\<lambda>c. strings_TrimPrefix (Container_Name c) ''step-'')
        ((if True then InitContainers (Pod_Spec ex_pod) else []) @ Containers (Pod_Spec ex_pod))"
    using filterSteps_no_selection [of ex_pod True] by blast
  have b: "map container (filterSteps ex_pod False []) =
      map Container_Name
        ((if False then InitContainers (Pod_Spec ex_pod) else []) @ Containers (Pod_Spec ex_pod))"
    using filterSteps_no_selection [of ex_pod False] by blast
  show ?thesis
    unfolding a b by (simp add: ex_pod_def strings_TrimPrefix_def strings_HasPrefix_def)
qed

text \<open>
  Claim C4. With a non-empty list of wanted names, \<open>filterSteps\<close> returns, after the
  init steps it may have prepended, the steps of the declared containers whose names are
  in the list, in the order of the pod: the result depends on the list only through its
  set of names, and names that no step carries change nothing and raise no error.
\<close>

theorem filterSteps_selection:
  assumes "wanted \<noteq> []"
  shows "filterSteps pod allSteps wanted =
           (if allSteps then getInitSteps pod else []) @
           filter (\<lambda>sp. name sp \<in> set wanted) (getSteps pod)
         \<and> (\<forall>wanted'. set wanted' = set wanted \<longrightarrow>
               filterSteps pod allSteps wanted' = filterSteps pod allSteps wanted)
         \<and> (\<forall>unknown. set unknown \<inter> name ` set (getSteps pod) = {} \<longrightarrow>
               filterSteps pod allSteps (wanted @ unknown) = filterSteps pod allSteps wanted)"
proof (intro conjI allI impI)
  show "filterSteps pod allSteps wanted =
          (if allSteps then getInitSteps pod else []) @
          filter (\<lambda>sp. name sp \<in> set wanted) (getSteps pod)"
    using assms by (rule filterSteps_nonempty)
next
  fix wanted' assume eq: "set wanted' = set wanted"
  with assms have "wanted' \<noteq> []" by auto
  then show "filterSteps pod allSteps wanted' = filterSteps pod allSteps wanted"
    using assms eq by (simp add: filterSteps_nonempty)
next
  fix unknown assume dis: "set unknown \<inter> name ` set (getSteps pod) = {}"
  have "filter (\<lambda>sp. name sp \<in> set (wanted @ unknown)) (getSteps pod) =
        filter (\<lambda>sp. name sp \<in> set wanted) (getSteps pod)"
    using dis by (intro filter_cong) auto
  moreover have "wanted @ unknown \<noteq> []" using assms by simp
  ultimately show "filterSteps pod allSteps (wanted @ unknown) = filterSteps pod allSteps wanted"
    using assms by (simp add: filterSteps_nonempty)
qed

theorem filterSteps_selection_witness:
  "map name (filterSteps ex_pod False [''test'', ''build'']) = [''build'', ''test'']
   \<and> filterSteps ex_pod False [''test'', ''build'', ''deploy''] = filterSteps ex_pod False [''test'', ''build'']
   \<and> filterSteps ex_pod False [''build'', ''test''] = filterSteps ex_pod False [''test'', ''build'']"
proof -
  have ne: "[''test'', ''build''] \<noteq> ([] :: string list)" by simp
  have nm: "map name (getSteps ex_pod) = [''build'', ''test'']"
    by (simp add: getSteps_map ex_pod_def mkStep_def strings_TrimPrefix_def strings_HasPrefix_def)
  have "name ` set (getSteps ex_pod) = set (map name (getSteps ex_pod))" by simp
  then have dis: "set [''deploy''] \<inter> name ` set (getSteps ex_pod) = {}"
    unfolding nm by simp
  have st: "set [''build'', ''test''] = set [''test'', ''build'']" by auto
  note th = filterSteps_selection [OF ne, of ex_pod False]
  from th have 1: "filterSteps ex_pod False [''test'', ''build''] =
      filter (\<lambda>sp. name sp \<in> set [''test'', ''build'']) (getSteps ex_pod)" by simp
  from th dis have 2: "filterSteps ex_pod False ([''test'', ''build''] @ [''deploy'']) =
      filterSteps ex_pod False [''test'', ''build'']" by blast
  from th st have 3: "filterSteps ex_pod False [''build'', ''test''] =
      filterSteps ex_pod False [''test'', ''build'']" by blast
  have "map name (filter (\<lambda>sp. name sp \<in> set [''test'', ''build'']) (getSteps ex_pod)) = [''build'', ''test'']"
    by (simp add: getSteps_map ex_pod_def mkStep_def strings_TrimPrefix_def strings_HasPrefix_def)
  with 1 2 3 show ?thesis by simp
qed

text \<open>
  Claim C5. With \<open>allSteps\<close> set and a non-empty list of wanted names, all init steps are
  prepended, whatever the list holds. For a pod with the init step \<open>init-git\<close> and the
  steps \<open>build\<close> and \<open>test\<close>, and the wanted list \<open>[test]\<close>, the resolved names are
  \<open>[init-git, test]\<close>.
\<close>

theorem filterSteps_init_unfiltered:
  assumes "wanted \<noteq> []"
  shows "filterSteps pod True wanted =
           getInitSteps pod @ filter (\<lambda>sp. name sp \<in> set wanted) (getSteps pod)
         \<and> take (length (InitContainers (Pod_Spec pod))) (filterSteps pod True wanted) =
             getInitSteps pod
         \<and> (map (\<lambda>c. strings_TrimPrefix (Container_Name c) ''step-'')
               (InitContainers (Pod_Spec pod)) = [''init-git''] \<and>
            map (\<lambda>c. strings_TrimPrefix (Container_Name c) ''step-'')
               (Containers (Pod_Spec pod)) = [''build'', ''test''] \<and>
            wanted = [''test''] \<longrightarrow>
            map name (filterSteps pod True wanted) = [''init-git'', ''test''])"
proof (intro conjI impI)
  show eq: "filterSteps pod True wanted =
          getInitSteps pod @ filter (\<lambda>sp. name sp \<in> set wanted) (getSteps pod)"
    using assms by (simp add: filterSteps_nonempty)
  show "take (length (InitContainers (Pod_Spec pod))) (filterSteps pod True wanted) =
          getInitSteps pod"
    by (simp add: eq) (simp add: getInitSteps_map)
  assume ex: "map (\<lambda>c. strings_TrimPrefix (Container_Name c) ''step-'')
               (InitContainers (Pod_Spec pod)) = [''init-git''] \<and>
            map (\<lambda>c. strings_TrimPrefix (Container_Name c) ''step-'')
               (Containers (Pod_Spec pod)) = [''build'', ''test''] \<and>
            wanted = [''test'']"
  have ni: "map name (getInitSteps pod) = [''init-git'']"
    using ex by (simp add: getInitSteps_map map_name_mkStep del: map_map)
  have ns: "map name (getSteps pod) = [''build'', ''test'']"
    using ex by (simp add: getSteps_map map_name_mkStep del: map_map)
  have "map name (filter (\<lambda>sp. name sp \<in> set wanted) (getSteps pod)) =
        filter (\<lambda>n. n \<in> set wanted) (map name (getSteps pod))"
    by (simp add: filter_map comp_def)
  also have "\<dots> = [''test'']" using ex by (simp add: ns)
  finally show "map name (filterSteps pod True wanted) = [''init-git'', ''test'']"
    by (simp add: eq ni)
qed

theorem filterSteps_init_unfiltered_witness:
  "map name (filterSteps ex_pod True [''test'']) = [''init-git'', ''test'']
   \<and> take 1 (filterSteps ex_pod True [''test'']) = getInitSteps ex_pod"
proof -
  have ne: "[''test''] \<noteq> ([] :: string list)" by simp
  have ex: "map (\<lambda>c. strings_TrimPrefix (Container_Name c) ''step-'')
               (InitContainers (Pod_Spec ex_pod)) = [''init-git''] \<and>
            map (\<lambda>c. strings_TrimPrefix (Container_Name c) ''step-'')
               (Containers (Pod_Spec ex_pod)) = [''build'', ''test''] \<and>
            [''test''] = [''test'']"
    by (simp add: ex_pod_def strings_TrimPrefix_def strings_HasPrefix_def)
  have len: "length (InitContainers (Pod_Spec ex_pod)) = 1" by (simp add: ex_pod_def)
  note th = filterSteps_init_unfiltered [OF ne, of ex_pod]
  from th ex have 1: "map name (filterSteps ex_pod True [''test'']) = [''init-git'', ''test'']"
    by blast
  from th have "take (length (InitContainers (Pod_Spec ex_pod))) (filterSteps ex_pod True [''test'']) =
      getInitSteps ex_pod" by blast
  then have 2: "take 1 (filterSteps ex_pod True [''test'']) = getInitSteps ex_pod"
    unfolding len .
  from 1 2 show ?thesis by blast
qed

section \<open>Properties of the log multiplexer\<close>

lemma fst_emit [simp]: "fst (emit ev r) = ev # fst r"
  by (simp add: emit_def)

lemma snd_emit [simp]: "snd (emit ev r) = snd r"
  by (simp add: emit_def)

lemma selectLoop_logs:
  "filter isSendLog (fst (selectLoop task n sched podC perrC)) = logsOf task n podC"
proof (induction task n sched podC perrC rule: selectLoop.induct)
  case (1 task stepName sched podC perrC)
  show ?case
    using "1.IH"
    apply (subst selectLoop.simps)
    apply (cases podC; cases perrC)
    apply (auto simp: logsOf_def split: chan.splits list.splits)
    done
qed

lemma selectLoop_no_external:
  "filter isExternal (fst (selectLoop task n sched podC perrC)) = []"
proof (induction task n sched podC perrC rule: selectLoop.induct)
  case (1 task stepName sched podC perrC)
  show ?case
    using "1.IH"
    apply (subst selectLoop.simps)
    apply (cases podC; cases perrC)
    apply (auto split: chan.splits list.splits)
    done
qed

lemma readStep_no_external:
  "snd (readStep pod task follow s) \<noteq> Return \<Longrightarrow>
   filter isExternal (fst (readStep pod task follow s)) = []"
  by (auto simp: readStep_def selectLoop_no_external split: sum.splits prod.splits bool.splits option.splits)
     (metis fst_conv selectLoop_no_external)+

lemma stepsLoop_no_external:
  "snd (stepsLoop pod task follow steps) = LoopEnded \<Longrightarrow>
   filter isExternal (fst (stepsLoop pod task follow steps)) = []"
proof (induction steps)
  case Nil
  then show ?case by simp
next
  case (Cons s steps)
  show ?case
  proof (cases "follow \<or> hasStarted s")
    case False
    with Cons show ?thesis by simp
  next
    case True
    obtain tr fl where rs: "readStep pod task follow s = (tr, fl)"
      by (cases "readStep pod task follow s")
    from True rs Cons.prems have fl: "fl = Continue" by (cases fl) auto
    with rs have "filter isExternal tr = []"
      using readStep_no_external [of pod task follow s] by simp
    moreover from True rs fl Cons.prems have "snd (stepsLoop pod task follow steps) = LoopEnded"
      by auto
    ultimately show ?thesis using True rs fl Cons.IH by auto
  qed
qed

lemma stepsLoop_append:
  "stepsLoop pod task follow (xs @ ys) =
     (if snd (stepsLoop pod task follow xs) = LoopEnded
      then (fst (stepsLoop pod task follow xs) @ fst (stepsLoop pod task follow ys),
            snd (stepsLoop pod task follow ys))
      else stepsLoop pod task follow xs)"
proof (induction xs)
  case Nil
  then show ?case by simp
next
  case (Cons s xs)
  show ?case
  proof (cases "\<not> follow \<and> \<not> hasStarted s")
    case True
    with Cons show ?thesis by simp
  next
    case False
    obtain tr fl where rs: "readStep pod task follow s = (tr, fl)" by (cases "readStep pod task follow s")
    show ?thesis using False rs Cons by (cases fl) auto
  qed
qed

lemma stepsLoop_Cons_read:
  "follow \<or> hasStarted s \<Longrightarrow>
   fst (stepsLoop pod task follow (s # steps)) =
     fst (readStep pod task follow s) @
     (if snd (readStep pod task follow s) = Continue
      then fst (stepsLoop pod task follow steps) else [])"
  by (cases "readStep pod task follow s"; cases "snd (readStep pod task follow s)") auto

text \<open>
  Claim C1. Let a step be reached by the loop (the steps before it ran through without a
  return or a block), be read (not skipped), have its log reader opened and its two
  channels drained, and let its status query report an error. Then the goroutine sends
  that error on the error channel once, as its last send, returns, and closes both
  channels: the steps after it contribute nothing, and the status error occurs exactly once
  among all that was sent.
\<close>

theorem status_failure_aborts:
  assumes "follow \<or> hasStarted s"
    and "Read pod (container s) follow = Inr (podC, perrC)"
    and "selectLoop (Task lr) (name s) (order pod (container s)) podC perrC = (tr, True)"
    and "Status pod (container s) = Some err"
    and "stepsLoop pod (Task lr) follow pre = (trp, LoopEnded)"
  shows "readStepsLogs lr (pre @ s # post) pod follow =
           trp @ tr @ [SendErr (External err), CloseErrC, CloseLogC]
         \<and> filter isExternal (readStepsLogs lr (pre @ s # post) pod follow) =
             [SendErr (External err)]"
proof -
  have rs: "readStep pod (Task lr) follow s = (tr @ [SendErr (External err)], Return)"
    using assms(2,3,4) by (simp add: readStep_def)
  have "stepsLoop pod (Task lr) follow (s # post) = (tr @ [SendErr (External err)], Returned)"
    using assms(1) rs by auto
  then have sl: "stepsLoop pod (Task lr) follow (pre @ s # post) =
      (trp @ tr @ [SendErr (External err)], Returned)"
    using assms(5) by (simp add: stepsLoop_append)
  then have eq: "readStepsLogs lr (pre @ s # post) pod follow =
      trp @ tr @ [SendErr (External err), CloseErrC, CloseLogC]"
    by (simp add: readStepsLogs_def)
  have "filter isExternal trp = []"
    using stepsLoop_no_external [of pod "Task lr" follow pre] assms(5) by simp
  moreover have "filter isExternal tr = []"
    using selectLoop_no_external [of "Task lr" "name s" "order pod (container s)" podC perrC]
      assms(3) by simp
  ultimately show ?thesis by (simp add: eq)
qed

theorem status_failure_aborts_witness:
  "readStepsLogs ex_lr ([ex_init] @ ex_build # [ex_test]) (ex_handle (Some ''exit 1'')) True =
     [SendErr (Errorf ''error in getting logs for step init-git: not found''),
      SendLog \<lparr>Log_Task = ''ci'', Log_Step = ''build'', Log_Log = ''ok''\<rparr>,
      SendErr (Errorf ''failed to get logs for build: lost''),
      SendLog \<lparr>Log_Task = ''ci'', Log_Step = ''build'', Log_Log = ''EOFLOG''\<rparr>,
      SendErr (External ''exit 1''), CloseErrC, CloseLogC]"
proof -
  have 1: "True \<or> hasStarted ex_build" by simp
  have 2: "Read (ex_handle (Some ''exit 1'')) (container ex_build) True =
      Inr (Chan [''ok''] True, Chan [''lost''] True)"
    by (simp add: ex_handle_def ex_build_def)
  have 3: "selectLoop (Task ex_lr) (name ex_build)
      (order (ex_handle (Some ''exit 1'')) (container ex_build)) (Chan [''ok''] True) (Chan [''lost''] True) =
      ([SendLog \<lparr>Log_Task = ''ci'', Log_Step = ''build'', Log_Log = ''ok''\<rparr>,
        SendErr (Errorf ''failed to get logs for build: lost''),
        SendLog \<lparr>Log_Task = ''ci'', Log_Step = ''build'', Log_Log = ''EOFLOG''\<rparr>], True)"
    by code_simp
  have 4: "Status (ex_handle (Some ''exit 1'')) (container ex_build) = Some ''exit 1''"
    by (simp add: ex_handle_def ex_build_def)
  have 5: "stepsLoop (ex_handle (Some ''exit 1'')) (Task ex_lr) True [ex_init] =
      ([SendErr (Errorf ''error in getting logs for step init-git: not found'')], LoopEnded)"
    by code_simp
  show ?thesis
    using status_failure_aborts [OF 1 2 3 4 5, of "[ex_test]"] by simp
qed

lemma statusMap_None_aux:
  "k \<notin> ContainerStatus_Name ` set css \<Longrightarrow>
   foldl (\<lambda>status cs. status(ContainerStatus_Name cs \<mapsto> ContainerStatus_State cs)) m css k = m k"
  by (induction css arbitrary: m) auto

lemma statusAt_unobserved:
  "k \<notin> ContainerStatus_Name ` set css \<Longrightarrow> statusAt (statusMap css) k = zero_ContainerState"
  by (simp add: statusAt_def statusMap_def statusMap_None_aux)

lemma count_list_map_SendLog:
  "\<forall>l\<in>set ls. l \<noteq> x \<Longrightarrow>
   count_list (map (\<lambda>l. SendLog \<lparr>Log_Task = t, Log_Step = n, Log_Log = l\<rparr>) ls)
     (SendLog \<lparr>Log_Task = t, Log_Step = n, Log_Log = x\<rparr>) = 0"
  by (induction ls) auto

lemma count_list_filter_isSendLog:
  "count_list (filter isSendLog tr) (SendLog l) = count_list tr (SendLog l)"
  by (induction tr) auto

lemma readStep_logs:
  "Read pod (container s) follow = Inr (podC, perrC) \<Longrightarrow>
   filter isSendLog (fst (readStep pod task follow s)) = logsOf task (name s) podC"
  using selectLoop_logs [of task "name s" "order pod (container s)" podC perrC]
  by (auto simp: readStep_def split: prod.splits bool.splits option.splits)

text \<open>
  Claim C2 asks, for every step that is read and whose log source was opened and gave at
  least one line, that the step's log records end with exactly one record of the text
  \<open>EOFLOG\<close> and the step's name, sent before any record of a later step. Two inputs
  show what is missing. A log channel that delivers the line \<open>l1\<close> and is never closed:
  the line is forwarded, no end-of-log record follows, and the loop waits for ever. A log
  channel closed after the lines \<open>x\<close> and \<open>EOFLOG\<close>: the second line is forwarded
  as it is, and the step's log records end with two records of the text \<open>EOFLOG\<close>.
\<close>

theorem sentinel_missing_or_doubled:
  "readStep (ex_reader (Chan [''l1''] False)) ''ci'' True ex_build =
     ([SendLog \<lparr>Log_Task = ''ci'', Log_Step = ''build'', Log_Log = ''l1''\<rparr>], Block)
   \<and> filter isSendLog (fst (readStep (ex_reader (Chan [''x'', ''EOFLOG''] True)) ''ci'' True ex_build)) =
       [SendLog \<lparr>Log_Task = ''ci'', Log_Step = ''build'', Log_Log = ''x''\<rparr>,
        SendLog \<lparr>Log_Task = ''ci'', Log_Step = ''build'', Log_Log = ''EOFLOG''\<rparr>,
        SendLog \<lparr>Log_Task = ''ci'', Log_Step = ''build'', Log_Log = ''EOFLOG''\<rparr>]
   \<and> count_list (fst (readStep (ex_reader (Chan [''x'', ''EOFLOG''] True)) ''ci'' True ex_build))
       (SendLog \<lparr>Log_Task = ''ci'', Log_Step = ''build'', Log_Log = ''EOFLOG''\<rparr>) = 2"
  by code_simp

text \<open>
  Claim C2, as it holds. Let a step be read whose log reader opened with a log channel that
  its sender closes after the lines \<open>ls\<close>. Then the log records sent for the step are
  these lines, in order, followed by one record with the text \<open>EOFLOG\<close> and the step's
  name; where no line is itself \<open>EOFLOG\<close> that record occurs once in the step's sends;
  and all sends of the step, this record among them, come before every send of a later
  step.
\<close>

theorem sentinel_ends_step_logs:
  assumes "follow \<or> hasStarted s"
    and "Read pod (container s) follow = Inr (Chan ls True, perrC)"
    and "stepsLoop pod task follow pre = (trp, LoopEnded)"
  shows "filter isSendLog (fst (readStep pod task follow s)) =
           map (\<lambda>l. SendLog \<lparr>Log_Task = task, Log_Step = name s, Log_Log = l\<rparr>) ls @
           [SendLog \<lparr>Log_Task = task, Log_Step = name s, Log_Log = ''EOFLOG''\<rparr>]
         \<and> ((\<forall>l\<in>set ls. l \<noteq> ''EOFLOG'') \<longrightarrow>
              count_list (fst (readStep pod task follow s))
                (SendLog \<lparr>Log_Task = task, Log_Step = name s, Log_Log = ''EOFLOG''\<rparr>) = 1)
         \<and> fst (stepsLoop pod task follow (pre @ s # post)) =
             trp @ fst (readStep pod task follow s) @
             (if snd (readStep pod task follow s) = Continue
              then fst (stepsLoop pod task follow post) else [])"
proof (intro conjI impI)
  show logs: "filter isSendLog (fst (readStep pod task follow s)) =
           map (\<lambda>l. SendLog \<lparr>Log_Task = task, Log_Step = name s, Log_Log = l\<rparr>) ls @
           [SendLog \<lparr>Log_Task = task, Log_Step = name s, Log_Log = ''EOFLOG''\<rparr>]"
    using readStep_logs [OF assms(2), of task] by (simp add: logsOf_def)
  show "fst (stepsLoop pod task follow (pre @ s # post)) =
             trp @ fst (readStep pod task follow s) @
             (if snd (readStep pod task follow s) = Continue
              then fst (stepsLoop pod task follow post) else [])"
    using assms(3) stepsLoop_Cons_read [OF assms(1), of pod task post]
    by (simp add: stepsLoop_append)
  assume "\<forall>l\<in>set ls. l \<noteq> ''EOFLOG''"
  then have "count_list (filter isSendLog (fst (readStep pod task follow s)))
      (SendLog \<lparr>Log_Task = task, Log_Step = name s, Log_Log = ''EOFLOG''\<rparr>) = 1"
    unfolding logs by (simp add: count_list_map_SendLog)
  then show "count_list (fst (readStep pod task follow s))
      (SendLog \<lparr>Log_Task = task, Log_Step = name s, Log_Log = ''EOFLOG''\<rparr>) = 1"
    by (simp add: count_list_filter_isSendLog)
qed

theorem sentinel_ends_step_logs_witness:
  "fst (stepsLoop (ex_handle None) ''ci'' True ([ex_init] @ ex_build # [ex_test])) =
     [SendErr (Errorf ''error in getting logs for step init-git: not found''),
      SendLog \<lparr>Log_Task = ''ci'', Log_Step = ''build'', Log_Log = ''ok''\<rparr>,
      SendErr (Errorf ''failed to get logs for build: lost''),
      SendLog \<lparr>Log_Task = ''ci'', Log_Step = ''build'', Log_Log = ''EOFLOG''\<rparr>,
      SendLog \<lparr>Log_Task = ''ci'', Log_Step = ''test'', Log_Log = ''tested''\<rparr>,
      SendLog \<lparr>Log_Task = ''ci'', Log_Step = ''test'', Log_Log = ''EOFLOG''\<rparr>]
   \<and> count_list (fst (readStep (ex_handle None) ''ci'' True ex_build))
       (SendLog \<lparr>Log_Task = ''ci'', Log_Step = ''build'', Log_Log = ''EOFLOG''\<rparr>) = 1"
proof -
  have 1: "True \<or> hasStarted ex_build" by simp
  have 2: "Read (ex_handle None) (container ex_build) True =
      Inr (Chan [''ok''] True, Chan [''lost''] True)"
    by (simp add: ex_handle_def ex_build_def)
  have 3: "stepsLoop (ex_handle None) ''ci'' True [ex_init] =
      ([SendErr (Errorf ''error in getting logs for step init-git: not found'')], LoopEnded)"
    by code_simp
  have 4: "\<forall>l\<in>set [''ok'']. l \<noteq> ''EOFLOG''" by simp
  have 5: "readStep (ex_handle None) ''ci'' True ex_build =
      ([SendLog \<lparr>Log_Task = ''ci'', Log_Step = ''build'', Log_Log = ''ok''\<rparr>,
        SendErr (Errorf ''failed to get logs for build: lost''),
        SendLog \<lparr>Log_Task = ''ci'', Log_Step = ''build'', Log_Log = ''EOFLOG''\<rparr>], Continue)"
    by code_simp
  have 6: "stepsLoop (ex_handle None) ''ci'' True [ex_test] =
      ([SendLog \<lparr>Log_Task = ''ci'', Log_Step = ''test'', Log_Log = ''tested''\<rparr>,
        SendLog \<lparr>Log_Task = ''ci'', Log_Step = ''test'', Log_Log = ''EOFLOG''\<rparr>], LoopEnded)"
    by code_simp
  note th = sentinel_ends_step_logs [OF 1 2 3, of "[ex_test]"]
  from th 4 have a: "count_list (fst (readStep (ex_handle None) ''ci'' True ex_build))
       (SendLog \<lparr>Log_Task = ''ci'', Log_Step = name ex_build, Log_Log = ''EOFLOG''\<rparr>) = 1"
    by blast
  from th have b: "fst (stepsLoop (ex_handle None) ''ci'' True ([ex_init] @ ex_build # [ex_test])) =
      [SendErr (Errorf ''error in getting logs for step init-git: not found'')] @
      fst (readStep (ex_handle None) ''ci'' True ex_build) @
      (if snd (readStep (ex_handle None) ''ci'' True ex_build) = Continue
       then fst (stepsLoop (ex_handle None) ''ci'' True [ex_test]) else [])"
    by blast
  have n: "name ex_build = ''build''" by (simp add: ex_build_def)
  show ?thesis
    using a b unfolding 5 6 n by simp
qed

lemma sends_append [simp]: "sends (xs @ ys) = sends xs @ sends ys"
  by (induction xs rule: sends.induct) simp_all

lemma sends_map_Does [simp]: "sends (map Does tr) = tr"
  by (induction tr) simp_all

lemma readStep_acts_sends:
  "sends (fst (readStep_acts pod task follow s)) = fst (readStep pod task follow s) \<and>
   snd (readStep_acts pod task follow s) = snd (readStep pod task follow s)"
  by (auto simp: readStep_acts_def readStep_def split: sum.splits prod.splits bool.splits option.splits)

lemma stepsLoop_acts_sends:
  "sends (fst (stepsLoop_acts pod task follow steps)) = fst (stepsLoop pod task follow steps) \<and>
   snd (stepsLoop_acts pod task follow steps) = snd (stepsLoop pod task follow steps)"
proof (induction steps)
  case Nil
  show ?case by simp
next
  case (Cons s steps)
  show ?case
  proof (cases "follow \<or> hasStarted s")
    case False
    with Cons show ?thesis by simp
  next
    case True
    obtain tr fl where a: "readStep_acts pod task follow s = (tr, fl)"
      by (cases "readStep_acts pod task follow s")
    obtain tr' fl' where b: "readStep pod task follow s = (tr', fl')"
      by (cases "readStep pod task follow s")
    from readStep_acts_sends [of pod task follow s] a b
    have eq: "sends tr = tr'" "fl = fl'" by simp_all
    show ?thesis using True a b eq Cons by (cases fl') auto
  qed
qed

lemma readStepsLogs_acts_sends:
  "sends (readStepsLogs_acts lr steps pod follow) = readStepsLogs lr steps pod follow"
proof -
  obtain tr fl where a: "stepsLoop_acts pod (Task lr) follow steps = (tr, fl)"
    by (cases "stepsLoop_acts pod (Task lr) follow steps")
  obtain tr' fl' where b: "stepsLoop pod (Task lr) follow steps = (tr', fl')"
    by (cases "stepsLoop pod (Task lr) follow steps")
  from stepsLoop_acts_sends [of pod "Task lr" follow steps] a b
  have "sends tr = tr'" "fl = fl'" by simp_all
  then show ?thesis using a b
    by (cases fl') (simp_all add: readStepsLogs_acts_def readStepsLogs_def)
qed

lemma stepsLoop_acts_append:
  "stepsLoop_acts pod task follow (xs @ ys) =
     (if snd (stepsLoop_acts pod task follow xs) = LoopEnded
      then (fst (stepsLoop_acts pod task follow xs) @ fst (stepsLoop_acts pod task follow ys),
            snd (stepsLoop_acts pod task follow ys))
      else stepsLoop_acts pod task follow xs)"
proof (induction xs)
  case Nil
  then show ?case by simp
next
  case (Cons s xs)
  show ?case
  proof (cases "\<not> follow \<and> \<not> hasStarted s")
    case True
    with Cons show ?thesis by simp
  next
    case False
    obtain tr fl where rs: "readStep_acts pod task follow s = (tr, fl)"
      by (cases "readStep_acts pod task follow s")
    show ?thesis using False rs Cons by (cases fl) auto
  qed
qed

lemma isCallOn_map_Does [simp]: "filter (isCallOn c) (map Does tr) = []"
  by (induction tr) simp_all

lemma readStep_acts_calls:
  "c \<noteq> container s \<Longrightarrow> filter (isCallOn c) (fst (readStep_acts pod task follow s)) = []"
  by (auto simp: readStep_acts_def split: sum.splits prod.splits bool.splits option.splits)

lemma stepsLoop_acts_calls:
  "c \<notin> container ` set steps \<Longrightarrow>
   filter (isCallOn c) (fst (stepsLoop_acts pod task follow steps)) = []"
proof (induction steps)
  case Nil
  show ?case by simp
next
  case (Cons s steps)
  then have c: "c \<noteq> container s" and rest: "c \<notin> container ` set steps" by auto
  obtain tr fl where rs: "readStep_acts pod task follow s = (tr, fl)"
    by (cases "readStep_acts pod task follow s")
  with readStep_acts_calls [OF c, of pod task follow] have "filter (isCallOn c) tr = []" by simp
  then show ?case using rs Cons.IH [OF rest] by (cases fl) auto
qed

lemma readStepsLogs_acts_calls:
  "c \<notin> container ` set steps \<Longrightarrow>
   filter (isCallOn c) (readStepsLogs_acts lr steps pod follow) = []"
  using stepsLoop_acts_calls [of c steps pod "Task lr" follow]
  by (auto simp: readStepsLogs_acts_def split: prod.splits exit.splits)

text \<open>
  Claim C8. Without \<open>follow\<close>, a step whose container state is waiting is passed over:
  the goroutine makes the same calls and sends, in the same order, as for the list without
  the step. No log reader is opened and no status is queried for it (the trace holds no
  call on its container, unless another step of the list runs in the same container), it
  adds no log record and no error record, and the loop goes on with the next step.
\<close>

theorem waiting_step_skipped:
  assumes "Waiting (state s) \<noteq> None"
  shows "stepsLoop_acts pod task False (s # post) = stepsLoop_acts pod task False post
         \<and> readStepsLogs_acts lr (pre @ s # post) pod False =
             readStepsLogs_acts lr (pre @ post) pod False
         \<and> readStepsLogs lr (pre @ s # post) pod False = readStepsLogs lr (pre @ post) pod False
         \<and> (container s \<notin> container ` set (pre @ post) \<longrightarrow>
              filter (isCallOn (container s))
                (readStepsLogs_acts lr (pre @ s # post) pod False) = [])"
proof -
  have sk: "stepsLoop_acts pod t False (s # post) = stepsLoop_acts pod t False post" for t
    using assms by (simp add: hasStarted_def)
  have "stepsLoop_acts pod (Task lr) False (pre @ s # post) =
        stepsLoop_acts pod (Task lr) False (pre @ post)"
    by (simp only: stepsLoop_acts_append [of pod "Task lr" False pre] sk)
  then have acts: "readStepsLogs_acts lr (pre @ s # post) pod False =
      readStepsLogs_acts lr (pre @ post) pod False"
    by (simp add: readStepsLogs_acts_def)
  then have "sends (readStepsLogs_acts lr (pre @ s # post) pod False) =
      sends (readStepsLogs_acts lr (pre @ post) pod False)"
    by simp
  then have snd: "readStepsLogs lr (pre @ s # post) pod False =
      readStepsLogs lr (pre @ post) pod False"
    by (simp only: readStepsLogs_acts_sends)
  have "container s \<notin> container ` set (pre @ post) \<longrightarrow>
        filter (isCallOn (container s)) (readStepsLogs_acts lr (pre @ s # post) pod False) = []"
    unfolding acts using readStepsLogs_acts_calls [of "container s" "pre @ post" lr pod False]
    by blast
  with sk acts snd show ?thesis by blast
qed

theorem waiting_step_skipped_witness:
  "readStepsLogs_acts ex_lr ([ex_build] @ ex_test # []) (ex_handle None) False =
     [CallRead ''step-build'' False,
      Does (SendLog \<lparr>Log_Task = ''ci'', Log_Step = ''build'', Log_Log = ''ok''\<rparr>),
      Does (SendErr (Errorf ''failed to get logs for build: lost'')),
      Does (SendLog \<lparr>Log_Task = ''ci'', Log_Step = ''build'', Log_Log = ''EOFLOG''\<rparr>),
      CallStatus ''step-build'',
      Does CloseErrC, Does CloseLogC]
   \<and> filter (isCallOn ''step-test'')
       (readStepsLogs_acts ex_lr ([ex_build] @ ex_test # []) (ex_handle None) False) = []"
proof -
  have 1: "Waiting (state ex_test) \<noteq> None" by (simp add: ex_test_def ex_waiting_def)
  have 2: "readStepsLogs_acts ex_lr ([ex_build] @ []) (ex_handle None) False =
     [CallRead ''step-build'' False,
      Does (SendLog \<lparr>Log_Task = ''ci'', Log_Step = ''build'', Log_Log = ''ok''\<rparr>),
      Does (SendErr (Errorf ''failed to get logs for build: lost'')),
      Does (SendLog \<lparr>Log_Task = ''ci'', Log_Step = ''build'', Log_Log = ''EOFLOG''\<rparr>),
      CallStatus ''step-build'',
      Does CloseErrC, Does CloseLogC]"
    by code_simp
  have 3: "container ex_test \<notin> container ` set ([ex_build] @ [])"
    by (simp add: ex_test_def ex_build_def)
  have c: "container ex_test = ''step-test''" by (simp add: ex_test_def)
  note th = waiting_step_skipped [OF 1, where lr = ex_lr and pre = "[ex_build]" and post = "[]"
      and pod = "ex_handle None" and task = "''ci''"]
  from th have a: "readStepsLogs_acts ex_lr ([ex_build] @ ex_test # []) (ex_handle None) False =
        readStepsLogs_acts ex_lr ([ex_build] @ []) (ex_handle None) False"
    by blast
  from th 3 have b: "filter (isCallOn (container ex_test))
       (readStepsLogs_acts ex_lr ([ex_build] @ ex_test # []) (ex_handle None) False) = []"
    by blast
  from a b show ?thesis unfolding 2 c by blast
qed

text \<open>
  Claim C9. A container of the pod's spec (or init container) whose name has no entry in
  the container statuses (or init container statuses) gives a step with the zero container
  state. Its \<open>Waiting\<close> is nil, \<open>hasStarted\<close> holds, and without \<open>follow\<close> the step is
  read like any started step.
\<close>

theorem unobserved_step_has_started:
  assumes "(c \<in> set (Containers (Pod_Spec pod)) \<and>
            Container_Name c \<notin> ContainerStatus_Name ` set (ContainerStatuses (Pod_Status pod)) \<and>
            s = mkStep (statusMap (ContainerStatuses (Pod_Status pod))) c \<and>
            steps = getSteps pod)
         \<or> (c \<in> set (InitContainers (Pod_Spec pod)) \<and>
            Container_Name c \<notin> ContainerStatus_Name ` set (InitContainerStatuses (Pod_Status pod)) \<and>
            s = mkStep (statusMap (InitContainerStatuses (Pod_Status pod))) c \<and>
            steps = getInitSteps pod)"
  shows "s \<in> set steps \<and> container s = Container_Name c
         \<and> state s = zero_ContainerState \<and> Waiting (state s) = None \<and> hasStarted s
         \<and> fst (stepsLoop p task False (s # rest)) =
             fst (readStep p task False s) @
             (if snd (readStep p task False s) = Continue
              then fst (stepsLoop p task False rest) else [])"
proof -
  have mem: "s \<in> set steps"
    using assms by (auto simp: getSteps_map getInitSteps_map)
  have cont: "container s = Container_Name c"
    using assms by (auto simp: mkStep_def)
  have st: "state s = zero_ContainerState"
    using assms by (auto simp: mkStep_def statusAt_unobserved)
  then have w: "Waiting (state s) = None"
    by (simp add: zero_ContainerState_def)
  then have hs: "hasStarted s"
    by (simp add: hasStarted_def)
  then have "False \<or> hasStarted s" by simp
  from stepsLoop_Cons_read [OF this, of p task rest] mem cont st w hs
  show ?thesis by blast
qed

theorem unobserved_step_has_started_witness:
  "state ex_init = zero_ContainerState \<and> hasStarted ex_init \<and> ex_init \<in> set (getInitSteps ex_pod)
   \<and> fst (stepsLoop (ex_handle None) ''ci'' False (ex_init # [ex_test])) =
       [SendErr (Errorf ''error in getting logs for step init-git: not found'')]"
proof -
  have c: "\<lparr>Container_Name = ''init-git''\<rparr> \<in> set (InitContainers (Pod_Spec ex_pod))"
    by (simp add: ex_pod_def)
  have u: "Container_Name \<lparr>Container_Name = ''init-git''\<rparr> \<notin>
             ContainerStatus_Name ` set (InitContainerStatuses (Pod_Status ex_pod))"
    by (simp add: ex_pod_def)
  have s: "ex_init = mkStep (statusMap (InitContainerStatuses (Pod_Status ex_pod)))
             \<lparr>Container_Name = ''init-git''\<rparr>"
    by (simp add: ex_init_def ex_pod_def mkStep_def statusMap_def statusAt_def
        strings_TrimPrefix_def strings_HasPrefix_def)
  have r: "readStep (ex_handle None) ''ci'' False ex_init =
      ([SendErr (Errorf ''error in getting logs for step init-git: not found'')], Continue)"
    by code_simp
  have t: "stepsLoop (ex_handle None) ''ci'' False [ex_test] = ([], LoopEnded)"
    by code_simp
  from c u s have "(\<lparr>Container_Name = ''init-git''\<rparr> \<in> set (Containers (Pod_Spec ex_pod)) \<and>
            Container_Name \<lparr>Container_Name = ''init-git''\<rparr> \<notin>
              ContainerStatus_Name ` set (ContainerStatuses (Pod_Status ex_pod)) \<and>
            ex_init = mkStep (statusMap (ContainerStatuses (Pod_Status ex_pod)))
              \<lparr>Container_Name = ''init-git''\<rparr> \<and>
            getInitSteps ex_pod = getSteps ex_pod)
         \<or> (\<lparr>Container_Name = ''init-git''\<rparr> \<in> set (InitContainers (Pod_Spec ex_pod)) \<and>
            Container_Name \<lparr>Container_Name = ''init-git''\<rparr> \<notin>
              ContainerStatus_Name ` set (InitContainerStatuses (Pod_Status ex_pod)) \<and>
            ex_init = mkStep (statusMap (InitContainerStatuses (Pod_Status ex_pod)))
              \<lparr>Container_Name = ''init-git''\<rparr> \<and>
            getInitSteps ex_pod = getInitSteps ex_pod)"
    by blast
  note th = unobserved_step_has_started [OF this, of "ex_handle None" "''ci''" "[ex_test]"]
  from th have a: "fst (stepsLoop (ex_handle None) ''ci'' False (ex_init # [ex_test])) =
      fst (readStep (ex_handle None) ''ci'' False ex_init) @
      (if snd (readStep (ex_handle None) ''ci'' False ex_init) = Continue
       then fst (stepsLoop (ex_handle None) ''ci'' False [ex_test]) else [])"
    by blast
  from th have b: "state ex_init = zero_ContainerState \<and> hasStarted ex_init \<and>
      ex_init \<in> set (getInitSteps ex_pod)"
    by blast
  have "fst (stepsLoop (ex_handle None) ''ci'' False (ex_init # [ex_test])) =
      [SendErr (Errorf ''error in getting logs for step init-git: not found'')]"
    unfolding a r t by simp
  with b show ?thesis by blast
qed

section \<open>Properties of reading the available logs\<close>

text \<open>
  Claim C7. \<open>readAvailableLogs\<close> checks in this order and returns at once, with an error
  and no channels: a run that has not started gives the error \<open>has not started yet\<close>;
  else a run whose first condition has the status \<open>False\<close> gives the failure error, which
  is also written as a line to the writer \<open>lr.Stream.Err\<close> when \<open>lr.Stream\<close> is set,
  whatever the pod name is; else an empty pod name gives the error
  \<open>pod for taskrun ... not available yet\<close>.
\<close>

theorem readAvailableLogs_precedence:
  "(\<not> HasStarted tr \<longrightarrow>
      readAvailableLogs lr pods_New trimSpace tr =
        (Stream lr, Inl (Errorf (''task '' @ Task lr @ '' has not started yet''))))
   \<and> (HasStarted tr \<and> Conditions (TaskRun_Status tr) = c # cs \<and>
       Condition_Status c = corev1_ConditionFalse \<longrightarrow>
      readAvailableLogs lr pods_New trimSpace tr =
        (map_option
           (\<lambda>st. st\<lparr>Stream_Err := Stream_Err st @
              ''task '' @ Task lr @ '' has failed: '' @ Condition_Message c @ [CHR 0x0A]\<rparr>)
           (Stream lr),
         Inl (Errorf (''task '' @ Task lr @ '' has failed: '' @ Condition_Message c))))
   \<and> (HasStarted tr \<and>
       (Conditions (TaskRun_Status tr) = [] \<or>
        Condition_Status (hd (Conditions (TaskRun_Status tr))) \<noteq> corev1_ConditionFalse) \<and>
       PodName (TaskRun_Status tr) = '''' \<longrightarrow>
      readAvailableLogs lr pods_New trimSpace tr =
        (Stream lr, Inl (Errorf (''pod for taskrun '' @ TaskRun_Name tr @ '' not available yet''))))"
  by (auto simp: readAvailableLogs_def hasTaskRunFailed_def split: option.splits)

theorem readAvailableLogs_precedence_witness:
  "readAvailableLogs ex_lr (\<lambda>podName ns. ex_handle None) id ex_run_failed =
     (Some \<lparr>Stream_Out = '''', Stream_Err = ''task ci has failed: invalid input'' @ [CHR 0x0A]\<rparr>,
      Inl (Errorf ''task ci has failed: invalid input''))
   \<and> readAvailableLogs ex_lr (\<lambda>podName ns. ex_handle None) id (ex_run_failed\<lparr>HasStarted := False\<rparr>) =
     (Stream ex_lr, Inl (Errorf ''task ci has not started yet''))
   \<and> readAvailableLogs ex_lr (\<lambda>podName ns. ex_handle None) id ex_run_pending =
     (Stream ex_lr, Inl (Errorf ''pod for taskrun ci-run-1 not available yet''))"
proof -
  note th = readAvailableLogs_precedence [where lr = ex_lr and trimSpace = id
      and pods_New = "\<lambda>podName ns. ex_handle None"]
  have 1: "\<not> HasStarted (ex_run_failed\<lparr>HasStarted := False\<rparr>)" by simp
  have 2: "HasStarted ex_run_failed \<and>
      Conditions (TaskRun_Status ex_run_failed) =
        \<lparr>Condition_Status = ''False'', Condition_Message = ''invalid input''\<rparr> # [] \<and>
      Condition_Status \<lparr>Condition_Status = ''False'', Condition_Message = ''invalid input''\<rparr> =
        corev1_ConditionFalse"
    by (simp add: ex_run_failed_def corev1_ConditionFalse_def)
  have 3: "HasStarted ex_run_pending \<and>
      (Conditions (TaskRun_Status ex_run_pending) = [] \<or>
       Condition_Status (hd (Conditions (TaskRun_Status ex_run_pending))) \<noteq> corev1_ConditionFalse) \<and>
      PodName (TaskRun_Status ex_run_pending) = ''''"
    by (simp add: ex_run_pending_def)
  from th [of "ex_run_failed\<lparr>HasStarted := False\<rparr>"] 1
  have a: "readAvailableLogs ex_lr (\<lambda>podName ns. ex_handle None) id (ex_run_failed\<lparr>HasStarted := False\<rparr>) =
      (Stream ex_lr, Inl (Errorf (''task '' @ Task ex_lr @ '' has not started yet'')))"
    by blast
  from th [of ex_run_failed "\<lparr>Condition_Status = ''False'', Condition_Message = ''invalid input''\<rparr>" "[]"] 2
  have b: "readAvailableLogs ex_lr (\<lambda>podName ns. ex_handle None) id ex_run_failed =
      (map_option
         (\<lambda>st. st\<lparr>Stream_Err := Stream_Err st @ ''task '' @ Task ex_lr @ '' has failed: '' @
            Condition_Message \<lparr>Condition_Status = ''False'', Condition_Message = ''invalid input''\<rparr> @
            [CHR 0x0A]\<rparr>)
         (Stream ex_lr),
       Inl (Errorf (''task '' @ Task ex_lr @ '' has failed: '' @
            Condition_Message \<lparr>Condition_Status = ''False'', Condition_Message = ''invalid input''\<rparr>)))"
    by blast
  from th [of ex_run_pending] 3
  have c: "readAvailableLogs ex_lr (\<lambda>podName ns. ex_handle None) id ex_run_pending =
      (Stream ex_lr,
       Inl (Errorf (''pod for taskrun '' @ TaskRun_Name ex_run_pending @ '' not available yet'')))"
    by blast
  show ?thesis
    unfolding a b c by (simp add: ex_lr_def ex_run_pending_def)
qed

section \<open>Properties of waiting for the pod name\<close>

lemma watchLoop_result:
  assumes "watchLoop d task run evs first i now = Some y"
  shows "fst y = onTimeout run task \<or> fst y = Panic \<or>
         (\<exists>run'. fst y = Got run' \<and> PodName (TaskRun_Status run') \<noteq> '''')"
proof (rule watchLoop.raw_induct
    [where P = "\<lambda>d task run evs first i now y.
        fst y = onTimeout run task \<or> fst y = Panic \<or>
        (\<exists>run'. fst y = Got run' \<and> PodName (TaskRun_Status run') \<noteq> '''')",
     OF _ assms], goal_cases)
  case (1 wl d task run evs first i now y)
  then show ?case by (auto split: option.splits if_splits)
qed

lemma watchLoop_never_returns:
  assumes ret: "watchLoop d task run evs first i now = Some y"
    and all: "\<And>j. \<exists>ev r. evs j = Some ev \<and> Object ev = Some r \<and>
                 PodName (TaskRun_Status r) = '''' \<and>
                 (\<forall>ev'. evs (Suc j) = Some ev' \<longrightarrow> arrival ev' < arrival ev + d)"
    and next_ev: "\<And>ev. evs i = Some ev \<Longrightarrow> arrival ev < now + d"
  shows False
proof -
  have "(\<forall>j. \<exists>ev r. evs j = Some ev \<and> Object ev = Some r \<and>
              PodName (TaskRun_Status r) = '''' \<and>
              (\<forall>ev'. evs (Suc j) = Some ev' \<longrightarrow> arrival ev' < arrival ev + d)) \<longrightarrow>
        (\<forall>ev. evs i = Some ev \<longrightarrow> arrival ev < now + d) \<longrightarrow> False"
  proof (rule watchLoop.raw_induct
      [where P = "\<lambda>d task run evs first i now y.
          (\<forall>j. \<exists>ev r. evs j = Some ev \<and> Object ev = Some r \<and>
                PodName (TaskRun_Status r) = '''' \<and>
                (\<forall>ev'. evs (Suc j) = Some ev' \<longrightarrow> arrival ev' < arrival ev + d)) \<longrightarrow>
          (\<forall>ev. evs i = Some ev \<longrightarrow> arrival ev < now + d) \<longrightarrow> False",
       OF _ ret], goal_cases)
    case (1 wl d task run evs first i now y)
    show ?case
    proof (intro impI)
      assume all: "\<forall>j. \<exists>ev r. evs j = Some ev \<and> Object ev = Some r \<and>
                     PodName (TaskRun_Status r) = '''' \<and>
                     (\<forall>ev'. evs (Suc j) = Some ev' \<longrightarrow> arrival ev' < arrival ev + d)"
        and now: "\<forall>ev. evs i = Some ev \<longrightarrow> arrival ev < now + d"
      from all obtain ev r where ev: "evs i = Some ev" "Object ev = Some r"
        "PodName (TaskRun_Status r) = ''''"
        "\<forall>ev'. evs (Suc i) = Some ev' \<longrightarrow> arrival ev' < arrival ev + d"
        by blast
      from now ev have lt: "arrival ev < now + d" by simp
      from 1(2) ev lt
      have rec: "wl d task run evs (if first then False else first) (Suc i)
                   (max now (arrival ev)) = Some y"
        by simp
      have "\<forall>ev'. evs (Suc i) = Some ev' \<longrightarrow> arrival ev' < max now (arrival ev) + d"
        using ev(4) by auto
      with 1(1) [OF rec] all show False by blast
    qed
  qed
  with all next_ev show False by blast
qed

lemma watchLoop_events_end:
  "\<forall>ev\<in>set (drop i es). \<exists>r. Object ev = Some r \<and> PodName (TaskRun_Status r) = '''' \<Longrightarrow>
   \<exists>t\<ge>now + d. watchLoop d task run (events es) first i now = Some (onTimeout run task, t)"
proof (induction "length es - i" arbitrary: i now first)
  case 0
  then have "events es i = None" by (simp add: events_def)
  then show ?case by (subst watchLoop.simps) simp
next
  case (Suc n)
  then have i: "i < length es" by simp
  then have ev: "events es i = Some (es ! i)" by (simp add: events_def)
  from i have "es ! i \<in> set (drop i es)"
    by (metis Cons_nth_drop_Suc list.set_intros(1))
  with Suc.prems obtain r where r: "Object (es ! i) = Some r" "PodName (TaskRun_Status r) = ''''"
    by blast
  show ?case
  proof (cases "arrival (es ! i) < now + d")
    case False
    with ev show ?thesis by (subst watchLoop.simps) simp
  next
    case True
    have "\<forall>ev\<in>set (drop (Suc i) es). \<exists>r. Object ev = Some r \<and> PodName (TaskRun_Status r) = ''''"
      using Suc.prems by (metis in_set_dropD drop_drop plus_1_eq_Suc)
    moreover have "n = length es - Suc i" using Suc.hyps(2) by simp
    ultimately obtain t where t: "t \<ge> max now (arrival (es ! i)) + d"
      "watchLoop d task run (events es) (if first then False else first) (Suc i)
         (max now (arrival (es ! i))) = Some (onTimeout run task, t)"
      using Suc.hyps(1) [of "Suc i" "max now (arrival (es ! i))" "if first then False else first"]
      by blast
    from t(1) have "t \<ge> now + d" by simp
    moreover have "watchLoop d task run (events es) first i now = Some (onTimeout run task, t)"
      using ev r True t(2) by (subst watchLoop.simps) simp
    ultimately show ?thesis by blast
  qed
qed

lemma onTimeout_failed:
  "Conditions (TaskRun_Status run) = c # cs \<Longrightarrow> Condition_Status c = corev1_ConditionFalse \<Longrightarrow>
   onTimeout run task = Failed (Errorf (''task '' @ task @ '' has failed: '' @ Condition_Message c))"
  by (simp add: onTimeout_def hasTaskRunFailed_def)

lemma watchLoop_events_received:
  assumes "\<forall>j<length es. \<exists>r. Object (es ! j) = Some r \<and> PodName (TaskRun_Status r) = ''''"
    and "\<forall>j. Suc j < length es \<longrightarrow> arrival (es ! Suc j) < arrival (es ! j) + d"
    and "i < length es" and "arrival (es ! i) < now + d"
  shows "\<exists>t\<ge>arrival (last es) + d.
           watchLoop d task run (events es) first i now = Some (onTimeout run task, t)"
  using assms(3,4)
proof (induction "length es - i" arbitrary: i now first)
  case 0
  then show ?case by simp
next
  case (Suc n)
  from Suc.prems have ev: "events es i = Some (es ! i)" by (simp add: events_def)
  from assms(1) Suc.prems obtain r where
    r: "Object (es ! i) = Some r" "PodName (TaskRun_Status r) = ''''"
    by blast
  let ?now = "max now (arrival (es ! i))"
  have unf: "watchLoop d task run (events es) first i now =
             watchLoop d task run (events es) (if first then False else first) (Suc i) ?now"
    using ev r Suc.prems(2) by (subst watchLoop.simps) simp
  show ?case
  proof (cases "Suc i < length es")
    case True
    with assms(2) have "arrival (es ! Suc i) < ?now + d" by (auto simp: max_def)
    moreover have "n = length es - Suc i" using Suc.hyps(2) by simp
    ultimately show ?thesis
      using Suc.hyps(1) [of "Suc i" ?now "if first then False else first"] True unf by simp
  next
    case False
    with Suc.prems have last: "es ! i = last es"
      by (metis Suc_lessI last_conv_nth length_greater_0_conv diff_Suc_1 less_nat_zero_code
          list.size(3))
    from False have "events es (Suc i) = None" by (simp add: events_def)
    then have "watchLoop d task run (events es) (if first then False else first) (Suc i) ?now =
        Some (onTimeout run task, ?now + d)"
      by (subst watchLoop.simps) simp
    with unf last show ?thesis by simp
  qed
qed

text \<open>
  Let the run that \<open>waitUntilPodNameAvailable\<close> fetches first have an empty pod name and
  a first condition of status \<open>False\<close>. Then the function never returns the timeout error,
  whatever the watch delivers; and when the watch delivers finitely many events, none with
  a pod name, it returns the failure error \<open>task ... has failed: ...\<close>, at a time at which
  the timeout has elapsed.
\<close>

lemma failed_run_reported_on_timeout:
  assumes "TaskRuns_Get tkn = Inr run"
    and "PodName (TaskRun_Status run) = ''''"
    and "Conditions (TaskRun_Status run) = c # cs"
    and "Condition_Status c = corev1_ConditionFalse"
  shows "(\<forall>t. waitUntilPodNameAvailable lr tkn timeout \<noteq>
            Some (Failed (Errorf (''task '' @ Task lr @
              '' create has not started yet or pod for task not yet available'')), t))
         \<and> (\<forall>es. TaskRuns_Watch tkn = Inr (events es) \<and>
                 (\<forall>ev\<in>set es. \<exists>r. Object ev = Some r \<and> PodName (TaskRun_Status r) = '''') \<longrightarrow>
               (\<exists>t\<ge>timeout * time_Second.
                  waitUntilPodNameAvailable lr tkn timeout =
                    Some (Failed (Errorf (''task '' @ Task lr @ '' has failed: '' @
                            Condition_Message c)), t)))"
proof (intro conjI allI impI)
  note ot = onTimeout_failed [OF assms(3,4)]
  fix t
  show "waitUntilPodNameAvailable lr tkn timeout \<noteq>
          Some (Failed (Errorf (''task '' @ Task lr @
            '' create has not started yet or pod for task not yet available'')), t)"
  proof (cases "TaskRuns_Watch tkn")
    case (Inl err)
    with assms(1,2) show ?thesis by (simp add: waitUntilPodNameAvailable_def)
  next
    case (Inr evs)
    show ?thesis
    proof
      assume "waitUntilPodNameAvailable lr tkn timeout =
          Some (Failed (Errorf (''task '' @ Task lr @
            '' create has not started yet or pod for task not yet available'')), t)"
      with assms(1,2) Inr have "watchLoop (timeout * time_Second) (Task lr) run evs True 0 0 =
          Some (Failed (Errorf (''task '' @ Task lr @
            '' create has not started yet or pod for task not yet available'')), t)"
        by (simp add: waitUntilPodNameAvailable_def)
      from watchLoop_result [OF this] show False
        by (simp add: ot)
    qed
  qed
next
  note ot = onTimeout_failed [OF assms(3,4)]
  fix es
  assume h: "TaskRuns_Watch tkn = Inr (events es) \<and>
             (\<forall>ev\<in>set es. \<exists>r. Object ev = Some r \<and> PodName (TaskRun_Status r) = '''')"
  then have "\<forall>ev\<in>set (drop 0 es). \<exists>r. Object ev = Some r \<and> PodName (TaskRun_Status r) = ''''"
    by simp
  from watchLoop_events_end [OF this, of 0 "timeout * time_Second" "Task lr" run True]
  obtain t where "t \<ge> timeout * time_Second"
    "watchLoop (timeout * time_Second) (Task lr) run (events es) True 0 0 =
       Some (onTimeout run (Task lr), t)"
    by auto
  with assms(1,2) h
  show "\<exists>t\<ge>timeout * time_Second.
          waitUntilPodNameAvailable lr tkn timeout =
            Some (Failed (Errorf (''task '' @ Task lr @ '' has failed: '' @
                    Condition_Message c)), t)"
    by (auto simp: waitUntilPodNameAvailable_def ot)
qed

lemma failed_run_reported_on_timeout_example:
  "(\<exists>t\<ge>10 * time_Second.
      waitUntilPodNameAvailable ex_lr
        (ex_tkn ex_run_failed (events [\<lparr>arrival = 3000000000, Object = Some ex_run_failed\<rparr>])) 10 =
      Some (Failed (Errorf ''task ci has failed: invalid input''), t))
   \<and> waitUntilPodNameAvailable ex_lr
        (ex_tkn ex_run_failed (events [\<lparr>arrival = 3000000000, Object = Some ex_run_failed\<rparr>])) 10 \<noteq>
      Some (Failed (Errorf
        ''task ci create has not started yet or pod for task not yet available''), 13000000000)"
proof -
  let ?es = "[\<lparr>arrival = 3000000000, Object = Some ex_run_failed\<rparr>]"
  let ?c = "\<lparr>Condition_Status = ''False'', Condition_Message = ''invalid input''\<rparr>"
  have 1: "TaskRuns_Get (ex_tkn ex_run_failed (events ?es)) = Inr ex_run_failed"
    by (simp add: ex_tkn_def)
  have 2: "PodName (TaskRun_Status ex_run_failed) = ''''"
    by (simp add: ex_run_failed_def)
  have 3: "Conditions (TaskRun_Status ex_run_failed) = ?c # []"
    by (simp add: ex_run_failed_def)
  have 4: "Condition_Status ?c = corev1_ConditionFalse"
    by (simp add: corev1_ConditionFalse_def)
  have 5: "TaskRuns_Watch (ex_tkn ex_run_failed (events ?es)) = Inr (events ?es) \<and>
           (\<forall>ev\<in>set ?es. \<exists>r. Object ev = Some r \<and> PodName (TaskRun_Status r) = '''')"
    by (simp add: ex_tkn_def ex_run_failed_def)
  note th = failed_run_reported_on_timeout [OF 1 2 3 4, of ex_lr 10]
  from th 5 have a: "\<exists>t\<ge>10 * time_Second.
      waitUntilPodNameAvailable ex_lr (ex_tkn ex_run_failed (events ?es)) 10 =
      Some (Failed (Errorf (''task '' @ Task ex_lr @ '' has failed: '' @ Condition_Message ?c)), t)"
    by blast
  from th have b: "waitUntilPodNameAvailable ex_lr (ex_tkn ex_run_failed (events ?es)) 10 \<noteq>
      Some (Failed (Errorf (''task '' @ Task ex_lr @
        '' create has not started yet or pod for task not yet available'')), 13000000000)"
    by blast
  have n: "Task ex_lr = ''ci''" by (simp add: ex_lr_def)
  from a b show ?thesis unfolding n by simp
qed

text \<open>
  The conditions read in the timeout case are those of the run fetched first. A failure
  that only a watch event reports is not seen there: with a first run that has not failed,
  the timeout error is returned whatever the events carried.
\<close>

lemma timeout_reads_first_run:
  assumes "TaskRuns_Get tkn = Inr run"
    and "PodName (TaskRun_Status run) = ''''"
    and "hasTaskRunFailed (Conditions (TaskRun_Status run)) (Task lr) = None"
    and "TaskRuns_Watch tkn = Inr (events es)"
    and "\<forall>ev\<in>set es. \<exists>r. Object ev = Some r \<and> PodName (TaskRun_Status r) = ''''"
  shows "\<exists>t. waitUntilPodNameAvailable lr tkn timeout =
           Some (Failed (Errorf (''task '' @ Task lr @
             '' create has not started yet or pod for task not yet available'')), t)"
proof -
  from assms(5)
  have "\<forall>ev\<in>set (drop 0 es). \<exists>r. Object ev = Some r \<and> PodName (TaskRun_Status r) = ''''"
    by simp
  from watchLoop_events_end [OF this, of 0 "timeout * time_Second" "Task lr" run True]
  obtain t where
    "watchLoop (timeout * time_Second) (Task lr) run (events es) True 0 0 =
       Some (onTimeout run (Task lr), t)"
    by auto
  with assms(1-4) show ?thesis
    by (auto simp: waitUntilPodNameAvailable_def onTimeout_def)
qed

text \<open>
  Claim C6. For every run whose first condition has the status \<open>False\<close> and whose pod
  name is empty, \<open>waitUntilPodNameAvailable\<close> is to return the failure error
  \<open>task ... has failed: ...\<close> and never the timeout error. The function does so for a run
  that is in this state at the first \<open>Get\<close> (\<open>failed_run_reported_on_timeout\<close>). It does
  not for a run that reaches this state while the function waits: here the first \<open>Get\<close>
  gives the run without conditions, the watch delivers the failed run three seconds later
  and nothing after it, and with a timeout of ten seconds the function returns the timeout
  error at thirteen seconds.
\<close>

theorem watched_failure_gives_timeout_error:
  "waitUntilPodNameAvailable ex_lr
     (ex_tkn ex_run_pending (events [\<lparr>arrival = 3000000000, Object = Some ex_run_failed\<rparr>])) 10 =
   Some (Failed (Errorf
     ''task ci create has not started yet or pod for task not yet available''), 13000000000)"
  apply (simp add: waitUntilPodNameAvailable_def ex_tkn_def ex_run_pending_def ex_lr_def)
  apply (subst watchLoop.simps)
  apply (simp add: events_def time_Second_def ex_run_failed_def)
  apply (subst watchLoop.simps)
  apply (simp add: events_def onTimeout_def hasTaskRunFailed_def time_Second_def)
  done

text \<open>
  Claim C10. The timer of the \<open>select\<close> is made anew in every round of the loop, so an
  event received moves the deadline. When events without a pod name keep arriving, the
  first before the timeout and each before the timeout has passed since the one before,
  the function never returns. When such events stop after the one numbered \<open>n\<close>, the
  timeout case runs no earlier than the timeout after that event's arrival.
\<close>

theorem events_rearm_timer:
  assumes "TaskRuns_Get tkn = Inr run"
    and "PodName (TaskRun_Status run) = ''''"
    and "\<And>i. \<exists>r. Object (es i) = Some r \<and> PodName (TaskRun_Status r) = ''''"
    and "arrival (es 0) < timeout * time_Second"
    and "\<And>i. arrival (es (Suc i)) < arrival (es i) + timeout * time_Second"
  shows "(TaskRuns_Watch tkn = Inr (\<lambda>i. Some (es i)) \<longrightarrow>
            waitUntilPodNameAvailable lr tkn timeout = None)
         \<and> (TaskRuns_Watch tkn = Inr (events (map es [0..<Suc n])) \<longrightarrow>
            (\<exists>t\<ge>arrival (es n) + timeout * time_Second.
               waitUntilPodNameAvailable lr tkn timeout = Some (onTimeout run (Task lr), t)))"
proof (intro conjI impI)
  assume w: "TaskRuns_Watch tkn = Inr (\<lambda>i. Some (es i))"
  show "waitUntilPodNameAvailable lr tkn timeout = None"
  proof (rule ccontr)
    assume "waitUntilPodNameAvailable lr tkn timeout \<noteq> None"
    then obtain y where "waitUntilPodNameAvailable lr tkn timeout = Some y" by blast
    with assms(1,2) w
    have ret: "watchLoop (timeout * time_Second) (Task lr) run (\<lambda>i. Some (es i)) True 0 0 = Some y"
      by (simp add: waitUntilPodNameAvailable_def)
    show False
    proof (rule watchLoop_never_returns [OF ret])
      fix j
      from assms(3) [of j] assms(5) [of j]
      show "\<exists>ev r. (\<lambda>i. Some (es i)) j = Some ev \<and> Object ev = Some r \<and>
              PodName (TaskRun_Status r) = '''' \<and>
              (\<forall>ev'. (\<lambda>i. Some (es i)) (Suc j) = Some ev' \<longrightarrow>
                 arrival ev' < arrival ev + timeout * time_Second)"
        by auto
    next
      fix ev
      assume "(\<lambda>i. Some (es i)) 0 = Some ev"
      with assms(4) show "arrival ev < 0 + timeout * time_Second" by auto
    qed
  qed
next
  assume w: "TaskRuns_Watch tkn = Inr (events (map es [0..<Suc n]))"
  let ?es = "map es [0..<Suc n]"
  have len: "length ?es = Suc n" by simp
  have nth: "?es ! j = es j" if "j < Suc n" for j
    using that by (metis add_0 nth_map_upt minus_nat.diff_0)
  have 1: "\<forall>j<length ?es. \<exists>r. Object (?es ! j) = Some r \<and> PodName (TaskRun_Status r) = ''''"
    using assms(3) nth by (simp only: len) metis
  have 2: "\<forall>j. Suc j < length ?es \<longrightarrow>
             arrival (?es ! Suc j) < arrival (?es ! j) + timeout * time_Second"
  proof (intro allI impI)
    fix j assume "Suc j < length ?es"
    then have "Suc j < Suc n" "j < Suc n" by simp_all
    then show "arrival (?es ! Suc j) < arrival (?es ! j) + timeout * time_Second"
      using assms(5) [of j] by (simp only: nth)
  qed
  have 3: "0 < length ?es" by simp
  have 4: "arrival (?es ! 0) < 0 + timeout * time_Second"
    using assms(4) nth [of 0] by simp
  have last: "last ?es = es n"
    by (metis nth len last_conv_nth length_greater_0_conv 3 diff_Suc_1 lessI)
  from watchLoop_events_received [OF 1 2 3 4, of "Task lr" run True]
  obtain t where "t \<ge> arrival (es n) + timeout * time_Second"
    "watchLoop (timeout * time_Second) (Task lr) run (events ?es) True 0 0 =
       Some (onTimeout run (Task lr), t)"
    unfolding last by blast
  with assms(1,2) w
  show "\<exists>t\<ge>arrival (es n) + timeout * time_Second.
          waitUntilPodNameAvailable lr tkn timeout = Some (onTimeout run (Task lr), t)"
    by (auto simp: waitUntilPodNameAvailable_def)
qed

theorem events_rearm_timer_witness:
  "waitUntilPodNameAvailable ex_lr (ex_tkn ex_run_pending (\<lambda>i. Some (ex_busy i))) 10 = None
   \<and> (\<exists>t\<ge>37000000000.
        waitUntilPodNameAvailable ex_lr
          (ex_tkn ex_run_pending (events (map ex_busy [0..<Suc 3]))) 10 =
        Some (Failed (Errorf
          ''task ci create has not started yet or pod for task not yet available''), t))"
proof -
  have 2: "PodName (TaskRun_Status ex_run_pending) = ''''"
    by (simp add: ex_run_pending_def)
  have 3: "\<And>i. \<exists>r. Object (ex_busy i) = Some r \<and> PodName (TaskRun_Status r) = ''''"
    by (simp add: ex_busy_def ex_run_pending_def)
  have 4: "arrival (ex_busy 0) < 10 * time_Second"
    by (simp add: ex_busy_def time_Second_def)
  have 5: "\<And>i. arrival (ex_busy (Suc i)) < arrival (ex_busy i) + 10 * time_Second"
    by (simp add: ex_busy_def time_Second_def)
  have g: "TaskRuns_Get (ex_tkn ex_run_pending evs) = Inr ex_run_pending" for evs
    by (simp add: ex_tkn_def)
  have w: "TaskRuns_Watch (ex_tkn ex_run_pending evs) = Inr evs" for evs
    by (simp add: ex_tkn_def)
  from events_rearm_timer [OF g 2 3 4 5, of "\<lambda>i. Some (ex_busy i)" ex_lr] w
  have a: "waitUntilPodNameAvailable ex_lr (ex_tkn ex_run_pending (\<lambda>i. Some (ex_busy i))) 10 = None"
    by blast
  from events_rearm_timer [OF g 2 3 4 5, of "events (map ex_busy [0..<Suc 3])" ex_lr 3] w
  have "\<exists>t\<ge>arrival (ex_busy 3) + 10 * time_Second.
      waitUntilPodNameAvailable ex_lr (ex_tkn ex_run_pending (events (map ex_busy [0..<Suc 3]))) 10 =
      Some (onTimeout ex_run_pending (Task ex_lr), t)"
    by blast
  moreover have "onTimeout ex_run_pending (Task ex_lr) = Failed (Errorf
      ''task ci create has not started yet or pod for task not yet available'')"
    by (simp add: onTimeout_def hasTaskRunFailed_def ex_run_pending_def ex_lr_def)
  moreover have "arrival (ex_busy 3) + 10 * time_Second = 37000000000"
    by (simp add: ex_busy_def time_Second_def)
  ultimately have b: "\<exists>t\<ge>37000000000.
      waitUntilPodNameAvailable ex_lr (ex_tkn ex_run_pending (events (map ex_busy [0..<Suc 3]))) 10 =
      Some (Failed (Errorf
        ''task ci create has not started yet or pod for task not yet available''), t)"
    by simp
  from a b show ?thesis by blast
qed

end
